theory Spec2Isabelle
  imports Main "HOL-Library.Word"
begin

section \<open>Strings of the client\<close>

text \<open>
  A JavaScript string is a sequence of 16-bit code units. Literals of the source are
  written with \<open>lit\<close>, which maps each character of a HOL string to its code unit.
\<close>

type_synonym jsstring = "16 word list"

definition lit :: "string \<Rightarrow> jsstring" where
  "lit s = map (\<lambda>c. of_nat (of_char c)) s"

text \<open>
  \<open>String.prototype.trim\<close> removes WhiteSpace and LineTerminator code units from both
  ends (ECMAScript: TAB, VT, FF, SP, NBSP, ZWNBSP, the Unicode space separators, and
  LF, CR, LS, PS).
\<close>

definition isStrWhiteSpaceChar :: "16 word \<Rightarrow> bool" where
  "isStrWhiteSpaceChar c \<longleftrightarrow>
     c = 0x0009 \<or> c = 0x000A \<or> c = 0x000B \<or> c = 0x000C \<or> c = 0x000D \<or>
     c = 0x0020 \<or> c = 0x00A0 \<or> c = 0x1680 \<or> (0x2000 \<le> c \<and> c \<le> 0x200A) \<or>
     c = 0x2028 \<or> c = 0x2029 \<or> c = 0x202F \<or> c = 0x205F \<or> c = 0x3000 \<or>
     c = 0xFEFF"

definition trim :: "jsstring \<Rightarrow> jsstring" where
  "trim s = rev (dropWhile isStrWhiteSpaceChar (rev (dropWhile isStrWhiteSpaceChar s)))"

text \<open>A string used as a condition is true exactly when it is not empty.\<close>

definition truthy :: "jsstring \<Rightarrow> bool" where
  "truthy s \<longleftrightarrow> s \<noteq> []"

text \<open>
  \<open>chat.id.toString()\<close>: message identifiers are integers assigned by the server; the
  decimal rendering of an integer, with a minus sign for a negative one.
\<close>

definition digit :: "nat \<Rightarrow> 16 word" where
  "digit d = of_nat (48 + d)"

function digits :: "nat \<Rightarrow> jsstring" where
  "digits n = (if n < 10 then [digit n] else digits (n div 10) @ [digit (n mod 10)])"
  by pat_completeness auto
termination
  by (relation "measure (\<lambda>n. n)") auto

definition toString :: "int \<Rightarrow> jsstring" where
  "toString i = (if i < 0 then 0x002D # digits (nat (- i)) else digits (nat i))"

section \<open>Data model\<close>

record ChatMessage =
  chat_id :: int
  content :: jsstring
  reply_to :: "int option"
  is_from_user :: bool
  buttons :: "jsstring list"

datatype http_method = GET | POST | PUT | DELETE

text \<open>
  An outbound call of \<open>httpClient\<close>: the verb, the path below the base URL, the
  \<open>content\<close> field of the JSON body when there is one, and the \<open>Authorization\<close>
  header.
\<close>

record request =
  req_method :: http_method
  req_url :: jsstring
  body :: "jsstring option"
  authorization :: "jsstring option"

record response =
  status :: int
  data :: "ChatMessage list"

text \<open>What the transport delivers for a call: a response, or nothing at all.\<close>

datatype outcome = Responded response | NoResponse

text \<open>The error a failed call is rejected with; \<open>error.response\<close> may be missing.\<close>

datatype axios_error = AxiosError (error_response: "response option")

text \<open>Which caller a call in flight belongs to.\<close>

datatype origin = HistoryQuery | SendMessage | DeleteMessage | EditMessage

text \<open>
  The state the client code reads and writes: the browser's \<open>localStorage\<close> and
  \<open>window.location.href\<close>, the three \<open>useState\<close> cells of \<open>Chat\<close>, the state of the
  query \<open>'chatHistory'\<close> (its data is undefined until a fetch has succeeded), the
  query client's retry setting, and the calls issued and not yet settled.
\<close>

record world =
  localStorage :: "jsstring \<rightharpoonup> jsstring"
  location_href :: jsstring
  message :: jsstring
  editMessageId :: "jsstring option"
  editedContent :: jsstring
  chatHistory :: "ChatMessage list option"
  isLoading :: bool
  error :: "axios_error option"
  isFetching :: bool
  failureCount :: nat
  retry :: nat
  pending :: "(origin \<times> request) list"

section \<open>The HTTP client and its interceptors\<close>

text \<open>
  The request interceptor: \<open>const token = localStorage.getItem('token'); if (token)
  config.headers.Authorization = `Bearer ${token}`\<close>.
\<close>

definition request_interceptor :: "world \<Rightarrow> request \<Rightarrow> request" where
  "request_interceptor w config =
     (case localStorage w (lit ''token'') of
        None \<Rightarrow> config
      | Some token \<Rightarrow>
          if truthy token
          then config\<lparr>authorization := Some (lit ''Bearer '' @ token)\<rparr>
          else config)"

text \<open>Issuing a call puts it in flight, after the request interceptor has run.\<close>

definition dispatch :: "world \<Rightarrow> origin \<Rightarrow> request \<Rightarrow> world" where
  "dispatch w orig config = w\<lparr>pending := pending w @ [(orig, request_interceptor w config)]\<rparr>"

definition httpClient_get :: "world \<Rightarrow> origin \<Rightarrow> jsstring \<Rightarrow> world" where
  "httpClient_get w orig path =
     dispatch w orig \<lparr>req_method = GET, req_url = path, body = None, authorization = None\<rparr>"

definition httpClient_post :: "world \<Rightarrow> origin \<Rightarrow> jsstring \<Rightarrow> jsstring \<Rightarrow> world" where
  "httpClient_post w orig path c =
     dispatch w orig \<lparr>req_method = POST, req_url = path, body = Some c, authorization = None\<rparr>"

definition httpClient_put :: "world \<Rightarrow> origin \<Rightarrow> jsstring \<Rightarrow> jsstring \<Rightarrow> world" where
  "httpClient_put w orig path c =
     dispatch w orig \<lparr>req_method = PUT, req_url = path, body = Some c, authorization = None\<rparr>"

definition httpClient_delete :: "world \<Rightarrow> origin \<Rightarrow> jsstring \<Rightarrow> world" where
  "httpClient_delete w orig path =
     dispatch w orig \<lparr>req_method = DELETE, req_url = path, body = None, authorization = None\<rparr>"

text \<open>
  The transport resolves a call whose response has a status from 200 to 299 and rejects
  every other one, with the response attached to the error when there is one.
\<close>

definition settle :: "outcome \<Rightarrow> axios_error + response" where
  "settle out =
     (case out of
        NoResponse \<Rightarrow> Inl (AxiosError None)
      | Responded r \<Rightarrow>
          if 200 \<le> status r \<and> status r < 300 then Inr r else Inl (AxiosError (Some r)))"

text \<open>
  The response interceptor's error branch: \<open>if (error.response && error.response.status
  === 401) { localStorage.removeItem('token'); window.location.href = '/login'; } return
  Promise.reject(error)\<close>.
\<close>

definition response_rejected :: "world \<Rightarrow> axios_error \<Rightarrow> world \<times> axios_error" where
  "response_rejected w err =
     (case error_response err of
        Some r \<Rightarrow>
          if status r = 401
          then (w\<lparr>localStorage := (localStorage w)(lit ''token'' := None),
                  location_href := lit ''/login''\<rparr>, err)
          else (w, err)
      | None \<Rightarrow> (w, err))"

text \<open>The response interceptor's success branch returns the response as it is.\<close>

definition httpClient_receive :: "world \<Rightarrow> outcome \<Rightarrow> world \<times> (axios_error + response)" where
  "httpClient_receive w out =
     (case settle out of
        Inr r \<Rightarrow> (w, Inr r)
      | Inl err \<Rightarrow> (case response_rejected w err of (w', err') \<Rightarrow> (w', Inl err')))"

section \<open>The query and the mutations of the conversation view\<close>

text \<open>
  The query \<open>'chatHistory'\<close> runs \<open>httpClient.get('/messages/history').then((res) =>
  res.data)\<close>. The query library keeps one fetch per key: a fetch asked for while one
  is running joins the running one. \<open>invalidateQueries('chatHistory')\<close> refetches the
  query, which is mounted whenever the view is.
\<close>

definition fetchChatHistory :: "world \<Rightarrow> world" where
  "fetchChatHistory w =
     (if isFetching w then w
      else httpClient_get
             (w\<lparr>isFetching := True, failureCount := 0, isLoading := (chatHistory w = None)\<rparr>)
             HistoryQuery (lit ''/messages/history''))"

definition invalidateQueries :: "world \<Rightarrow> world" where
  "invalidateQueries w = fetchChatHistory w"

text \<open>
  A settled fetch: success replaces the data by the response's data; a failure is
  retried while the retry setting allows (the delay before a retry is left out), and
  otherwise stored as the query's error, the data staying as it was. Mutations are not
  retried.
\<close>

definition query_settled :: "world \<Rightarrow> axios_error + response \<Rightarrow> world" where
  "query_settled w res =
     (case res of
        Inr r \<Rightarrow> w\<lparr>chatHistory := Some (data r), isLoading := False, error := None,
                   isFetching := False, failureCount := 0\<rparr>
      | Inl err \<Rightarrow>
          if failureCount w < retry w
          then httpClient_get (w\<lparr>failureCount := Suc (failureCount w)\<rparr>)
                 HistoryQuery (lit ''/messages/history'')
          else w\<lparr>error := Some err, isLoading := False, isFetching := False,
                 failureCount := Suc (failureCount w)\<rparr>)"

text \<open>\<open>sendMessageMutation\<close>: \<open>httpClient.post('/messages', { content })\<close>.\<close>

definition sendMessageMutation_mutate :: "world \<Rightarrow> jsstring \<Rightarrow> world" where
  "sendMessageMutation_mutate w c = httpClient_post w SendMessage (lit ''/messages'') c"

definition sendMessageMutation_settled :: "world \<Rightarrow> axios_error + response \<Rightarrow> world" where
  "sendMessageMutation_settled w res =
     (case res of Inr r \<Rightarrow> invalidateQueries w | Inl err \<Rightarrow> w)"

text \<open>\<open>deleteMessageMutation\<close>: \<open>httpClient.delete(`/messages/${messageId}`)\<close>.\<close>

definition deleteMessageMutation_mutate :: "world \<Rightarrow> jsstring \<Rightarrow> world" where
  "deleteMessageMutation_mutate w messageId =
     httpClient_delete w DeleteMessage (lit ''/messages/'' @ messageId)"

definition deleteMessageMutation_settled :: "world \<Rightarrow> axios_error + response \<Rightarrow> world" where
  "deleteMessageMutation_settled w res =
     (case res of Inr r \<Rightarrow> invalidateQueries w | Inl err \<Rightarrow> w)"

text \<open>
  \<open>editMessageMutation\<close>: \<open>httpClient.put(`/messages/${messageId}`, { content })\<close>, and
  on success \<open>invalidateQueries('chatHistory'); setEditMessageId(null)\<close>.
\<close>

definition editMessageMutation_mutate :: "world \<Rightarrow> jsstring \<Rightarrow> jsstring \<Rightarrow> world" where
  "editMessageMutation_mutate w messageId c =
     httpClient_put w EditMessage (lit ''/messages/'' @ messageId) c"

definition editMessageMutation_settled :: "world \<Rightarrow> axios_error + response \<Rightarrow> world" where
  "editMessageMutation_settled w res =
     (case res of
        Inr r \<Rightarrow> (invalidateQueries w)\<lparr>editMessageId := None\<rparr>
      | Inl err \<Rightarrow> w)"

section \<open>The handlers of the conversation view\<close>

definition handleSendMessage :: "world \<Rightarrow> world" where
  "handleSendMessage w =
     (if truthy (trim (message w))
      then (sendMessageMutation_mutate w (message w))\<lparr>message := []\<rparr>
      else w)"

definition handleDeleteMessage :: "world \<Rightarrow> jsstring \<Rightarrow> world" where
  "handleDeleteMessage w messageId = deleteMessageMutation_mutate w messageId"

definition handleEditMessage :: "world \<Rightarrow> jsstring \<Rightarrow> jsstring \<Rightarrow> world" where
  "handleEditMessage w messageId c = w\<lparr>editMessageId := Some messageId, editedContent := c\<rparr>"

definition handleSaveEdit :: "world \<Rightarrow> jsstring \<Rightarrow> world" where
  "handleSaveEdit w messageId =
     (if truthy (trim (editedContent w))
      then editMessageMutation_mutate w messageId (editedContent w)
      else w)"

text \<open>
  What a row of the history shows: the edit form when \<open>editMessageId ===
  chat.id.toString()\<close>, the message's content otherwise. The Edit and Delete buttons of
  a content row call the handlers with \<open>chat.id.toString()\<close> and \<open>chat.content\<close>.
\<close>

datatype row = EditMessageForm jsstring | MessageContent ChatMessage

definition ChatMessage_row :: "world \<Rightarrow> ChatMessage \<Rightarrow> row" where
  "ChatMessage_row w chat =
     (if editMessageId w = Some (toString (chat_id chat))
      then EditMessageForm (editedContent w)
      else MessageContent chat)"

definition ChatBody :: "world \<Rightarrow> row list" where
  "ChatBody w = (case chatHistory w of None \<Rightarrow> [] | Some h \<Rightarrow> map (ChatMessage_row w) h)"

definition Edit_onClick :: "world \<Rightarrow> ChatMessage \<Rightarrow> world" where
  "Edit_onClick w chat = handleEditMessage w (toString (chat_id chat)) (content chat)"

definition Delete_onClick :: "world \<Rightarrow> ChatMessage \<Rightarrow> world" where
  "Delete_onClick w chat = handleDeleteMessage w (toString (chat_id chat))"

definition Save_onClick :: "world \<Rightarrow> ChatMessage \<Rightarrow> world" where
  "Save_onClick w chat = handleSaveEdit w (toString (chat_id chat))"

section \<open>The route guard\<close>

datatype element = Outlet | Navigate jsstring bool

text \<open>
  \<open>const isAuthenticated = !!localStorage.getItem('token'); return isAuthenticated ?
  <Outlet /> : <Navigate to="/login" replace />\<close>.
\<close>

definition isAuthenticated :: "world \<Rightarrow> bool" where
  "isAuthenticated w =
     (case localStorage w (lit ''token'') of None \<Rightarrow> False | Some token \<Rightarrow> truthy token)"

definition ProtectedRoute :: "world \<Rightarrow> element" where
  "ProtectedRoute w = (if isAuthenticated w then Outlet else Navigate (lit ''/login'') True)"

section \<open>The event loop\<close>

text \<open>
  Handlers run one at a time. An event is a user action on the view, the mounting of
  the view (the query starts, and the effect's \<open>refetchChatHistory()\<close> joins it), or
  the settling of the \<open>k\<close>-th call in flight with what the transport delivered.
\<close>

datatype event =
    Mount
  | SetMessage jsstring
  | SetEditedContent jsstring
  | ClickSend
  | ClickEdit ChatMessage
  | ClickSave ChatMessage
  | ClickDelete ChatMessage
  | Settle nat outcome

definition settled :: "world \<Rightarrow> origin \<Rightarrow> axios_error + response \<Rightarrow> world" where
  "settled w orig res =
     (case orig of
        HistoryQuery \<Rightarrow> query_settled w res
      | SendMessage \<Rightarrow> sendMessageMutation_settled w res
      | DeleteMessage \<Rightarrow> deleteMessageMutation_settled w res
      | EditMessage \<Rightarrow> editMessageMutation_settled w res)"

definition settle_call :: "world \<Rightarrow> nat \<Rightarrow> outcome \<Rightarrow> world" where
  "settle_call w k out =
     (if k < length (pending w)
      then (case httpClient_receive (w\<lparr>pending := take k (pending w) @ drop (Suc k) (pending w)\<rparr>) out of
              (w', res) \<Rightarrow> settled w' (fst (pending w ! k)) res)
      else w)"

fun step :: "world \<Rightarrow> event \<Rightarrow> world" where
  "step w Mount = fetchChatHistory (fetchChatHistory w)"
| "step w (SetMessage s) = w\<lparr>message := s\<rparr>"
| "step w (SetEditedContent s) = w\<lparr>editedContent := s\<rparr>"
| "step w ClickSend = handleSendMessage w"
| "step w (ClickEdit chat) = Edit_onClick w chat"
| "step w (ClickSave chat) = Save_onClick w chat"
| "step w (ClickDelete chat) = Delete_onClick w chat"
| "step w (Settle k out) = settle_call w k out"

definition run :: "world \<Rightarrow> event list \<Rightarrow> world" where
  "run w evs = foldl step w evs"

text \<open>The state at the first render of the view, for a given browser storage.\<close>

definition initial :: "(jsstring \<rightharpoonup> jsstring) \<Rightarrow> nat \<Rightarrow> world" where
  "initial ls n =
     \<lparr>localStorage = ls, location_href = lit ''/'', message = [], editMessageId = None,
      editedContent = [], chatHistory = None, isLoading = False, error = None,
      isFetching = False, failureCount = 0, retry = n, pending = []\<rparr>"

section \<open>Observations used in the statements\<close>

text \<open>Whether a row of the view is the edit form.\<close>

fun is_edit_form :: "row \<Rightarrow> bool" where
  "is_edit_form (EditMessageForm d) = True"
| "is_edit_form (MessageContent chat) = False"

text \<open>
  The history an event delivers to the client: the data of a response with a status
  from 200 to 299 that settles a call of the history query, and nothing otherwise.
\<close>

definition delivered_history :: "world \<Rightarrow> event \<Rightarrow> ChatMessage list option" where
  "delivered_history w ev =
     (case ev of
        Settle k out \<Rightarrow>
          if k < length (pending w) \<and> fst (pending w ! k) = HistoryQuery
          then (case settle out of Inr r \<Rightarrow> Some (data r) | Inl err \<Rightarrow> None)
          else None
      | _ \<Rightarrow> None)"

text \<open>
  The replica the refetch policy prescribes after a run of events: the last history
  delivered so far, or the starting value when none has been.
\<close>

fun server_history_after :: "ChatMessage list option \<Rightarrow> world \<Rightarrow> event list \<Rightarrow> ChatMessage list option" where
  "server_history_after h w [] = h"
| "server_history_after h w (ev # evs) =
     server_history_after (case delivered_history w ev of Some d \<Rightarrow> Some d | None \<Rightarrow> h)
       (step w ev) evs"

text \<open>
  Two facts about the calls in flight that every run keeps: a call of the history query
  is a GET of \<open>/messages/history\<close>, and while the query is fetching such a call is
  in flight.
\<close>

definition history_calls_ok :: "world \<Rightarrow> bool" where
  "history_calls_ok w \<longleftrightarrow>
     (\<forall>p\<in>set (pending w). fst p = HistoryQuery \<longrightarrow>
        req_method (snd p) = GET \<and> req_url (snd p) = lit ''/messages/history'')"

definition fetch_in_flight :: "world \<Rightarrow> bool" where
  "fetch_in_flight w \<longleftrightarrow> (isFetching w \<longrightarrow> (\<exists>p\<in>set (pending w). fst p = HistoryQuery))"

definition inflight_ok :: "world \<Rightarrow> bool" where
  "inflight_ok w \<longleftrightarrow> history_calls_ok w \<and> fetch_in_flight w"

section \<open>Concrete scenarios\<close>

text \<open>The history used by the component's tests.\<close>

definition mockChatHistory :: "ChatMessage list" where
  "mockChatHistory =
     [\<lparr>chat_id = 1, content = lit ''Hello!'', reply_to = None, is_from_user = True,
       buttons = []\<rparr>,
      \<lparr>chat_id = 2, content = lit ''Hi there! How can I help?'', reply_to = Some 1,
       is_from_user = False, buttons = [lit ''Option 1'', lit ''Option 2'']\<rparr>]"

text \<open>A view opened with a token in storage and the default retry setting.\<close>

definition logged_in :: world where
  "logged_in = initial [lit ''token'' \<mapsto> lit ''abc''] 3"

text \<open>The same view with only blanks typed in both inputs.\<close>

definition blank_world :: world where
  "blank_world = logged_in\<lparr>message := lit ''   '', editedContent := lit ''   ''\<rparr>"

text \<open>The same view with a message typed between two blanks, and after sending it.\<close>

definition typed_world :: world where
  "typed_world = logged_in\<lparr>message := lit '' hi ''\<rparr>"

definition sending_world :: world where
  "sending_world = handleSendMessage typed_world"

definition unauthorized :: response where
  "unauthorized = \<lparr>status = 401, data = []\<rparr>"

definition ok_history :: response where
  "ok_history = \<lparr>status = 200, data = mockChatHistory\<rparr>"

text \<open>A third message, written by the user.\<close>

definition farewell :: ChatMessage where
  "farewell = \<lparr>chat_id = 3, content = lit ''Bye'', reply_to = None, is_from_user = True,
     buttons = []\<rparr>"

text \<open>The view with the test history and the third message loaded.\<close>

definition loaded_world :: world where
  "loaded_world = logged_in\<lparr>chatHistory := Some (mockChatHistory @ [farewell])\<rparr>"

text \<open>
  Editing the first message: Edit is clicked on it, then the draft is changed; and the
  state after Save is clicked.
\<close>

definition editing_world :: world where
  "editing_world =
     run loaded_world [ClickEdit (hd mockChatHistory), SetEditedContent (lit ''Edited message'')]"

definition saving_world :: world where
  "saving_world = step editing_world (ClickSave (hd mockChatHistory))"

text \<open>
  A session: the view mounts, the history arrives, a message is typed and sent. Then
  the responses that settle the POST and the refetch.
\<close>

definition send_trace :: "event list" where
  "send_trace = [Mount, Settle 0 (Responded ok_history), SetMessage (lit '' hi ''), ClickSend]"

definition created :: response where
  "created = \<lparr>status = 201, data = []\<rparr>"

definition new_history :: response where
  "new_history = \<lparr>status = 200, data = mockChatHistory @ [farewell]\<rparr>"

section \<open>Auxiliary facts\<close>

declare digits.simps [simp del]

lemmas client_defs =
  dispatch_def httpClient_get_def httpClient_post_def httpClient_put_def httpClient_delete_def
  fetchChatHistory_def invalidateQueries_def query_settled_def
  sendMessageMutation_mutate_def sendMessageMutation_settled_def
  deleteMessageMutation_mutate_def deleteMessageMutation_settled_def
  editMessageMutation_mutate_def editMessageMutation_settled_def
  handleSendMessage_def handleDeleteMessage_def handleEditMessage_def handleSaveEdit_def
  Edit_onClick_def Delete_onClick_def Save_onClick_def

lemmas receive_defs = httpClient_receive_def settle_def response_rejected_def

subsection \<open>Trimming\<close>

lemma dropWhile_all: "(\<forall>x\<in>set (dropWhile P xs). P x) \<longleftrightarrow> (\<forall>x\<in>set xs. P x)"
proof
  assume a: "\<forall>x\<in>set (dropWhile P xs). P x"
  have "dropWhile P xs = []"
  proof (rule ccontr)
    assume n: "dropWhile P xs \<noteq> []"
    then have "\<not> P (hd (dropWhile P xs))" by (rule hd_dropWhile)
    moreover have "hd (dropWhile P xs) \<in> set (dropWhile P xs)" using n by simp
    ultimately show False using a by blast
  qed
  then show "\<forall>x\<in>set xs. P x" by simp
next
  assume "\<forall>x\<in>set xs. P x"
  then show "\<forall>x\<in>set (dropWhile P xs). P x" by (blast dest: set_dropWhileD)
qed

lemma trim_empty_iff: "trim s = [] \<longleftrightarrow> (\<forall>c\<in>set s. isStrWhiteSpaceChar c)"
  by (simp add: trim_def dropWhile_all)

subsection \<open>Decimal rendering is injective\<close>

lemma unat_digit: "d < 10 \<Longrightarrow> unat (digit d) = 48 + d"
  unfolding digit_def by (subst unat_of_nat) simp

lemma digit_inj: "a < 10 \<Longrightarrow> b < 10 \<Longrightarrow> digit a = digit b \<Longrightarrow> a = b"
proof -
  assume a: "a < 10" and b: "b < 10" and e: "digit a = digit b"
  from e have "unat (digit a) = unat (digit b)" by (rule arg_cong)
  then have "48 + a = 48 + b" by (simp only: unat_digit [OF a] unat_digit [OF b])
  then show "a = b" by linarith
qed

lemma digit_not_minus: "d < 10 \<Longrightarrow> digit d \<noteq> 0x002D"
proof
  assume d: "d < 10" and e: "digit d = 0x002D"
  from e have "unat (digit d) = unat (0x002D :: 16 word)" by (rule arg_cong)
  then have "48 + d = unat (0x002D :: 16 word)" by (simp only: unat_digit [OF d])
  also have "\<dots> = 45" by simp
  finally show False by linarith
qed

lemma digits_nonempty: "digits n \<noteq> []"
  by (subst digits.simps) simp

lemma digits_chars: "c \<in> set (digits n) \<Longrightarrow> \<exists>d<10. c = digit d"
proof (induction n rule: digits.induct)
  case (1 n)
  show ?case
  proof (cases "n < 10")
    case True
    with "1.prems" show ?thesis by (subst (asm) digits.simps) auto
  next
    case False
    with "1.prems" have "c \<in> set (digits (n div 10)) \<or> c = digit (n mod 10)"
      by (subst (asm) digits.simps) auto
    then show ?thesis
    proof
      assume "c \<in> set (digits (n div 10))"
      with False "1.IH" show ?thesis by blast
    next
      assume "c = digit (n mod 10)"
      moreover have "n mod 10 < 10" by simp
      ultimately show ?thesis by blast
    qed
  qed
qed

lemma digits_inj: "digits n = digits m \<Longrightarrow> n = m"
proof (induction n arbitrary: m rule: digits.induct)
  case (1 n)
  show ?case
  proof (cases "n < 10")
    case n: True
    show ?thesis
    proof (cases "m < 10")
      case True
      with n "1.prems" have "digit n = digit m"
        by (simp add: digits.simps [of n] digits.simps [of m])
      with n True show ?thesis by (rule digit_inj)
    next
      case False
      with n "1.prems" have "[digit n] = digits (m div 10) @ [digit (m mod 10)]"
        by (simp add: digits.simps [of n] digits.simps [of m])
      then have "digits (m div 10) = []" by simp
      then show ?thesis using digits_nonempty by blast
    qed
  next
    case n: False
    show ?thesis
    proof (cases "m < 10")
      case True
      with n "1.prems" have "digits (n div 10) @ [digit (n mod 10)] = [digit m]"
        by (simp add: digits.simps [of n] digits.simps [of m])
      then have "digits (n div 10) = []" by simp
      then show ?thesis using digits_nonempty by blast
    next
      case False
      with n "1.prems" have e: "digits (n div 10) @ [digit (n mod 10)] = digits (m div 10) @ [digit (m mod 10)]"
        by (simp add: digits.simps [of n] digits.simps [of m])
      then have "digits (n div 10) = digits (m div 10)" by simp
      with n "1.IH" have q: "n div 10 = m div 10" by blast
      from e have "digit (n mod 10) = digit (m mod 10)" by simp
      then have r: "n mod 10 = m mod 10" by (intro digit_inj) simp_all
      have "n = 10 * (n div 10) + n mod 10" by simp
      also have "\<dots> = 10 * (m div 10) + m mod 10" using q r by simp
      also have "\<dots> = m" by simp
      finally show ?thesis .
    qed
  qed
qed

lemma digits_no_minus: "digits n \<noteq> 0x002D # s"
proof
  assume e: "digits n = 0x002D # s"
  then have "0x002D \<in> set (digits n)" by simp
  then obtain d where "d < 10" "0x002D = digit d" using digits_chars by blast
  then show False using digit_not_minus by metis
qed

lemma toString_inj: "toString i = toString j \<Longrightarrow> i = j"
proof -
  assume e: "toString i = toString j"
  consider "i < 0" "j < 0" | "i < 0" "\<not> j < 0" | "\<not> i < 0" "j < 0" | "\<not> i < 0" "\<not> j < 0"
    by blast
  then show "i = j"
  proof cases
    case 1
    with e have "digits (nat (- i)) = digits (nat (- j))" by (simp add: toString_def)
    then have "nat (- i) = nat (- j)" by (rule digits_inj)
    with 1 show ?thesis by simp
  next
    case 2
    with e have "digits (nat j) = 0x002D # digits (nat (- i))" by (simp add: toString_def)
    then show ?thesis using digits_no_minus by blast
  next
    case 3
    with e have "digits (nat i) = 0x002D # digits (nat (- j))" by (simp add: toString_def)
    then show ?thesis using digits_no_minus by blast
  next
    case 4
    with e have "digits (nat i) = digits (nat j)" by (simp add: toString_def)
    then have "nat i = nat j" by (rule digits_inj)
    with 4 show ?thesis by simp
  qed
qed

subsection \<open>Interceptors and runs\<close>

lemma request_interceptor_fields [simp]:
  "req_method (request_interceptor w config) = req_method config"
  "req_url (request_interceptor w config) = req_url config"
  "body (request_interceptor w config) = body config"
  by (simp_all add: request_interceptor_def split: option.splits)

lemma run_snoc: "run w (evs @ [ev]) = step (run w evs) ev"
  by (simp add: run_def)

lemma run_Cons: "run w (ev # evs) = run (step w ev) evs"
  by (simp add: run_def)

subsection \<open>What settling a call changes\<close>

lemma receive_frame:
  assumes "httpClient_receive w out = (w', res)"
  shows "pending w' = pending w" "isFetching w' = isFetching w" "chatHistory w' = chatHistory w"
    "res = settle out"
  using assms by (auto simp: receive_defs split: sum.splits option.splits if_splits outcome.splits)

lemma chatHistory_fetch [simp]: "chatHistory (fetchChatHistory w) = chatHistory w"
  by (simp add: client_defs)

lemma chatHistory_settled:
  "chatHistory (settled w orig res) =
     (case res of Inr r \<Rightarrow> if orig = HistoryQuery then Some (data r) else chatHistory w
      | Inl err \<Rightarrow> chatHistory w)"
  by (cases orig; cases res) (simp_all add: settled_def client_defs)

lemma chatHistory_step:
  "chatHistory (step w ev) =
     (case delivered_history w ev of Some d \<Rightarrow> Some d | None \<Rightarrow> chatHistory w)"
proof (cases ev)
  case (Settle k out)
  show ?thesis
  proof (cases "k < length (pending w)")
    case True
    obtain w' res where r:
      "httpClient_receive (w\<lparr>pending := take k (pending w) @ drop (Suc k) (pending w)\<rparr>) out = (w', res)"
      by (cases "httpClient_receive (w\<lparr>pending := take k (pending w) @ drop (Suc k) (pending w)\<rparr>) out")
    from receive_frame(3,4) [OF r] have f: "chatHistory w' = chatHistory w" "res = settle out"
      by simp_all
    from True r f Settle show ?thesis
      by (simp add: settle_call_def delivered_history_def chatHistory_settled split: sum.splits)
  next
    case False
    with Settle show ?thesis by (simp add: settle_call_def delivered_history_def)
  qed
qed (simp_all add: delivered_history_def client_defs)

lemma chatHistory_run:
  "chatHistory (run w evs) = server_history_after (chatHistory w) w evs"
  by (induction evs arbitrary: w) (simp_all add: run_def chatHistory_step)

subsection \<open>The calls in flight along a run\<close>

lemma set_without_nth: "set (take k xs @ drop (Suc k) xs) \<subseteq> set xs"
  using set_take_subset [of k xs] set_drop_subset [of "Suc k" xs] by auto

lemma kept_without_nth:
  assumes "k < length xs" "p \<in> set xs" "p \<noteq> xs ! k"
  shows "p \<in> set (take k xs @ drop (Suc k) xs)"
proof -
  from assms(1) have "xs = take k xs @ xs ! k # drop (Suc k) xs" by (rule id_take_nth_drop)
  then have "set xs = set (take k xs) \<union> insert (xs ! k) (set (drop (Suc k) xs))"
    by (metis set_append list.simps(15))
  with assms(2,3) show ?thesis by auto
qed

lemma inflight_ok_fetch: "inflight_ok w \<Longrightarrow> inflight_ok (fetchChatHistory w)"
  by (auto simp: inflight_ok_def history_calls_ok_def fetch_in_flight_def client_defs)

lemma isFetching_fetch: "isFetching (fetchChatHistory w)"
  by (simp add: client_defs)

lemma inflight_ok_settled:
  assumes "history_calls_ok w" "orig = HistoryQuery \<or> fetch_in_flight w"
  shows "inflight_ok (settled w orig res)"
proof (cases orig)
  case HistoryQuery
  with assms(1) show ?thesis
    by (cases res)
      (auto simp: settled_def inflight_ok_def history_calls_ok_def fetch_in_flight_def client_defs)
next
  case SendMessage
  with assms have "inflight_ok w" by (simp add: inflight_ok_def)
  with SendMessage show ?thesis
    by (cases res) (simp_all add: settled_def sendMessageMutation_settled_def
        invalidateQueries_def inflight_ok_fetch)
next
  case DeleteMessage
  with assms have "inflight_ok w" by (simp add: inflight_ok_def)
  with DeleteMessage show ?thesis
    by (cases res) (simp_all add: settled_def deleteMessageMutation_settled_def
        invalidateQueries_def inflight_ok_fetch)
next
  case EditMessage
  with assms have "inflight_ok w" by (simp add: inflight_ok_def)
  then have "inflight_ok (fetchChatHistory w)" by (rule inflight_ok_fetch)
  then have "inflight_ok ((fetchChatHistory w)\<lparr>editMessageId := None\<rparr>)"
    by (simp add: inflight_ok_def history_calls_ok_def fetch_in_flight_def)
  with EditMessage \<open>inflight_ok w\<close> show ?thesis
    by (cases res) (simp_all add: settled_def editMessageMutation_settled_def
        invalidateQueries_def)
qed

lemma inflight_ok_step: "inflight_ok w \<Longrightarrow> inflight_ok (step w ev)"
proof (cases ev)
  case (Settle k out)
  assume ok: "inflight_ok w"
  show ?thesis
  proof (cases "k < length (pending w)")
    case True
    let ?rest = "take k (pending w) @ drop (Suc k) (pending w)"
    obtain w' res where r: "httpClient_receive (w\<lparr>pending := ?rest\<rparr>) out = (w', res)"
      by (cases "httpClient_receive (w\<lparr>pending := ?rest\<rparr>) out")
    from receive_frame(1,2) [OF r]
    have f: "pending w' = ?rest" "isFetching w' = isFetching w" by simp_all
    from ok f(1) set_without_nth [of k "pending w"] have c: "history_calls_ok w'"
      by (auto simp: inflight_ok_def history_calls_ok_def)
    have "fst (pending w ! k) = HistoryQuery \<or> fetch_in_flight w'"
    proof (cases "fst (pending w ! k) = HistoryQuery")
      case False
      have "fetch_in_flight w'"
        unfolding fetch_in_flight_def
      proof
        assume "isFetching w'"
        with f(2) ok obtain p where p: "p \<in> set (pending w)" "fst p = HistoryQuery"
          by (auto simp: inflight_ok_def fetch_in_flight_def)
        with False have "p \<noteq> pending w ! k" by auto
        with True p(1) have "p \<in> set ?rest" by (rule kept_without_nth)
        with p(2) f(1) show "\<exists>p\<in>set (pending w'). fst p = HistoryQuery" by auto
      qed
      then show ?thesis ..
    qed simp
    with c have "inflight_ok (settled w' (fst (pending w ! k)) res)" by (rule inflight_ok_settled)
    with True r Settle show ?thesis by (simp add: settle_call_def)
  next
    case False
    with ok Settle show ?thesis by (simp add: settle_call_def)
  qed
next
  case Mount
  assume "inflight_ok w"
  with Mount show ?thesis by (simp add: inflight_ok_fetch)
qed (auto simp: inflight_ok_def history_calls_ok_def fetch_in_flight_def client_defs)

lemma inflight_ok_run: "inflight_ok w \<Longrightarrow> inflight_ok (run w evs)"
  by (induction evs arbitrary: w) (simp_all add: run_def inflight_ok_step)

lemma inflight_ok_initial: "inflight_ok (initial ls n)"
  by (simp add: inflight_ok_def history_calls_ok_def fetch_in_flight_def initial_def)

lemma mutation_success_refetches:
  assumes "k < length (pending w)" "fst (pending w ! k) \<noteq> HistoryQuery"
    "200 \<le> status r" "status r < 300"
  shows "isFetching (step w (Settle k (Responded r)))"
  using assms
  by (cases "fst (pending w ! k)")
    (simp_all add: settle_call_def settled_def receive_defs sendMessageMutation_settled_def
      deleteMessageMutation_settled_def editMessageMutation_settled_def invalidateQueries_def
      isFetching_fetch)

subsection \<open>Rows in edit mode\<close>

lemma filter_key_le_1: "distinct (map f xs) \<Longrightarrow> length (filter (\<lambda>x. f x = a) xs) \<le> 1"
proof (induction xs)
  case Nil
  then show ?case by simp
next
  case (Cons x xs)
  show ?case
  proof (cases "f x = a")
    case True
    from Cons.prems have "\<not> (\<exists>y\<in>set xs. f x = f y)" by (simp add: image_iff)
    with True have "\<forall>y\<in>set xs. f y \<noteq> a" by metis
    then have "filter (\<lambda>x. f x = a) xs = []" by (simp add: filter_empty_conv)
    with True show ?thesis by simp
  next
    case False
    with Cons show ?thesis by simp
  qed
qed

lemma edit_rows_filter:
  "filter is_edit_form (map (ChatMessage_row w) h) =
   map (ChatMessage_row w) (filter (\<lambda>chat. Some (toString (chat_id chat)) = editMessageId w) h)"
  by (induction h) (auto simp: ChatMessage_row_def)

subsection \<open>The concrete scenarios, evaluated\<close>

lemma trim_blank: "trim (lit ''   '') = []"
  by (simp add: trim_def lit_def isStrWhiteSpaceChar_def)

lemma trim_hi: "trim (lit '' hi '') = lit ''hi''"
  by (simp add: trim_def lit_def isStrWhiteSpaceChar_def)

lemma toString_1: "toString 1 = lit ''1''"
  by (simp add: toString_def digits.simps digit_def lit_def)

lemma token_logged_in: "localStorage logged_in (lit ''token'') = Some (lit ''abc'')"
  by (simp add: logged_in_def initial_def)

lemma typed_world_truthy: "truthy (trim (message typed_world))"
  by (simp add: typed_world_def truthy_def trim_hi) (simp add: lit_def)

lemma sending_world_eq:
  "sending_world =
     logged_in\<lparr>message := [],
       pending := [(SendMessage, \<lparr>req_method = POST, req_url = lit ''/messages'',
                      body = Some (lit '' hi ''),
                      authorization = Some (lit ''Bearer '' @ lit ''abc'')\<rparr>)]\<rparr>"
proof -
  have a: "truthy (lit ''abc'')" by (simp add: truthy_def lit_def)
  have l: "localStorage typed_world (lit ''token'') = Some (lit ''abc'')"
    by (simp add: typed_world_def token_logged_in)
  have p: "pending logged_in = []" by (simp add: logged_in_def initial_def)
  show ?thesis
    unfolding sending_world_def handleSendMessage_def
    using typed_world_truthy a l p
    by (simp add: client_defs request_interceptor_def typed_world_def)
qed

lemma trim_edited: "trim (lit ''Edited message'') = lit ''Edited message''"
  by (simp add: trim_def lit_def isStrWhiteSpaceChar_def)

lemma editing_world_eq:
  "editing_world = loaded_world\<lparr>editMessageId := Some (lit ''1''),
     editedContent := lit ''Edited message''\<rparr>"
  by (simp add: editing_world_def run_def Edit_onClick_def handleEditMessage_def
      mockChatHistory_def toString_1)

lemma saving_world_eq:
  "saving_world = editing_world\<lparr>pending :=
     [(EditMessage, \<lparr>req_method = PUT, req_url = lit ''/messages/'' @ lit ''1'',
         body = Some (lit ''Edited message''),
         authorization = Some (lit ''Bearer '' @ lit ''abc'')\<rparr>)]\<rparr>"
proof -
  have t: "truthy (trim (lit ''Edited message''))"
    by (simp add: trim_edited truthy_def) (simp add: lit_def)
  have a: "truthy (lit ''abc'')" by (simp add: truthy_def lit_def)
  have l: "localStorage editing_world (lit ''token'') = Some (lit ''abc'')"
    by (simp add: editing_world_eq loaded_world_def token_logged_in)
  have p: "pending editing_world = []"
    by (simp add: editing_world_eq loaded_world_def logged_in_def initial_def)
  have e: "editedContent editing_world = lit ''Edited message''"
    by (simp add: editing_world_eq)
  have i: "toString (chat_id (hd mockChatHistory)) = lit ''1''"
    by (simp add: mockChatHistory_def toString_1)
  show ?thesis
    unfolding saving_world_def
    using t a l p e i
    by (simp add: Save_onClick_def handleSaveEdit_def client_defs request_interceptor_def)
qed

lemma run_send_trace:
  "run logged_in send_trace =
     logged_in\<lparr>chatHistory := Some mockChatHistory, message := [],
       pending := [(SendMessage, \<lparr>req_method = POST, req_url = lit ''/messages'',
                      body = Some (lit '' hi ''),
                      authorization = Some (lit ''Bearer '' @ lit ''abc'')\<rparr>)]\<rparr>"
proof -
  have a: "truthy (lit ''abc'')" by (simp add: truthy_def lit_def)
  have t: "truthy (trim (lit '' hi ''))" by (simp add: trim_hi truthy_def) (simp add: lit_def)
  have l: "logged_in = \<lparr>localStorage = [lit ''token'' \<mapsto> lit ''abc''], location_href = lit ''/'',
      message = [], editMessageId = None, editedContent = [], chatHistory = None,
      isLoading = False, error = None, isFetching = False, failureCount = 0, retry = 3,
      pending = []\<rparr>"
    by (simp add: logged_in_def initial_def)
  show ?thesis
    unfolding send_trace_def run_def l
    using a t
    by (simp add: settle_call_def settled_def receive_defs client_defs request_interceptor_def
        ok_history_def)
qed

section \<open>The claims\<close>

subsection \<open>C1: the replica is the last history the server returned\<close>

text \<open>
  Claim C1. In every state reached from the first render, the cached history is the
  data of the last successful response to the history query delivered so far (undefined
  when none has been): every event leaves the cache as it is, except such a response,
  which replaces it whole. When a send, edit or delete call is settled by a response
  with a status from 200 to 299, the cache is not written by that event, and afterwards
  a GET of \<open>/messages/history\<close> is in flight; whenever it is settled successfully the
  cache equals the data of that response.
\<close>

theorem refetch_wins_consistency:
  assumes "w = run (initial ls n) evs"
  shows "chatHistory w = server_history_after None (initial ls n) evs \<and>
    (\<forall>ev. chatHistory (step w ev) =
       (case delivered_history w ev of Some d \<Rightarrow> Some d | None \<Rightarrow> chatHistory w)) \<and>
    (k < length (pending w) \<and> fst (pending w ! k) \<noteq> HistoryQuery \<and>
     200 \<le> status r \<and> status r < 300 \<longrightarrow>
       chatHistory (step w (Settle k (Responded r))) = chatHistory w \<and>
       (\<exists>j<length (pending (step w (Settle k (Responded r)))).
          fst (pending (step w (Settle k (Responded r))) ! j) = HistoryQuery \<and>
          req_method (snd (pending (step w (Settle k (Responded r))) ! j)) = GET \<and>
          req_url (snd (pending (step w (Settle k (Responded r))) ! j)) = lit ''/messages/history'' \<and>
          (\<forall>r'. 200 \<le> status r' \<and> status r' < 300 \<longrightarrow>
             chatHistory (step (step w (Settle k (Responded r))) (Settle j (Responded r'))) =
               Some (data r'))))"
proof -
  have 1: "chatHistory w = server_history_after None (initial ls n) evs"
    using assms chatHistory_run [of "initial ls n" evs] by (simp add: initial_def)
  have 2: "\<forall>ev. chatHistory (step w ev) =
       (case delivered_history w ev of Some d \<Rightarrow> Some d | None \<Rightarrow> chatHistory w)"
    by (simp add: chatHistory_step)
  have 3: "chatHistory (step w (Settle k (Responded r))) = chatHistory w \<and>
       (\<exists>j<length (pending (step w (Settle k (Responded r)))).
          fst (pending (step w (Settle k (Responded r))) ! j) = HistoryQuery \<and>
          req_method (snd (pending (step w (Settle k (Responded r))) ! j)) = GET \<and>
          req_url (snd (pending (step w (Settle k (Responded r))) ! j)) = lit ''/messages/history'' \<and>
          (\<forall>r'. 200 \<le> status r' \<and> status r' < 300 \<longrightarrow>
             chatHistory (step (step w (Settle k (Responded r))) (Settle j (Responded r'))) =
               Some (data r')))"
    if h: "k < length (pending w)" "fst (pending w ! k) \<noteq> HistoryQuery"
      "200 \<le> status r" "status r < 300"
  proof -
    let ?w1 = "step w (Settle k (Responded r))"
    from h(1,2) have same: "chatHistory ?w1 = chatHistory w"
      using chatHistory_step [of w "Settle k (Responded r)"]
      by (simp add: delivered_history_def)
    have "inflight_ok w" using assms inflight_ok_initial by (simp add: inflight_ok_run)
    then have ok: "inflight_ok ?w1" by (rule inflight_ok_step)
    from h have "isFetching ?w1" by (rule mutation_success_refetches)
    with ok obtain p where p: "p \<in> set (pending ?w1)" "fst p = HistoryQuery"
      by (auto simp: inflight_ok_def fetch_in_flight_def)
    from p(1) obtain j where j: "j < length (pending ?w1)" "pending ?w1 ! j = p"
      by (auto simp: in_set_conv_nth)
    from ok p have q: "req_method (snd p) = GET \<and> req_url (snd p) = lit ''/messages/history''"
      by (auto simp: inflight_ok_def history_calls_ok_def)
    have "chatHistory (step ?w1 (Settle j (Responded r'))) = Some (data r')"
      if "200 \<le> status r' \<and> status r' < 300" for r'
      using that j p(2) chatHistory_step [of ?w1 "Settle j (Responded r')"]
      by (simp add: delivered_history_def settle_def)
    with j p(2) q same show ?thesis by auto
  qed
  from 1 2 3 show ?thesis by blast
qed

theorem refetch_wins_consistency_witness:
  "run logged_in send_trace = run (initial [lit ''token'' \<mapsto> lit ''abc''] 3) send_trace \<and>
   0 < length (pending (run logged_in send_trace)) \<and>
   fst (pending (run logged_in send_trace) ! 0) = SendMessage \<and>
   200 \<le> status created \<and> status created < 300 \<and>
   200 \<le> status new_history \<and> status new_history < 300 \<and>
   chatHistory (run logged_in send_trace) = Some mockChatHistory \<and>
   chatHistory (step (run logged_in send_trace) (Settle 0 (Responded created))) =
     Some mockChatHistory \<and>
   length (pending (step (run logged_in send_trace) (Settle 0 (Responded created)))) = 1 \<and>
   chatHistory (step (step (run logged_in send_trace) (Settle 0 (Responded created)))
     (Settle 0 (Responded new_history))) = Some (mockChatHistory @ [farewell])"
proof -
  let ?w = "run logged_in send_trace"
  let ?w1 = "step ?w (Settle 0 (Responded created))"
  have i: "?w = run (initial [lit ''token'' \<mapsto> lit ''abc''] 3) send_trace"
    by (simp add: logged_in_def)
  have p: "0 < length (pending ?w) \<and> fst (pending ?w ! 0) = SendMessage"
    by (simp add: run_send_trace)
  have s: "200 \<le> status created \<and> status created < 300" by (simp add: created_def)
  have s': "200 \<le> status new_history \<and> status new_history < 300"
    by (simp add: new_history_def)
  have c: "chatHistory ?w = Some mockChatHistory" by (simp add: run_send_trace)
  have l: "length (pending ?w1) = 1"
    by (simp only: run_send_trace)
      (simp add: settle_call_def settled_def receive_defs client_defs created_def
        logged_in_def initial_def)
  from refetch_wins_consistency [OF i, of 0 created] p s
  have k: "chatHistory ?w1 = chatHistory ?w"
    and "\<exists>j<length (pending ?w1).
          \<forall>r'. 200 \<le> status r' \<and> status r' < 300 \<longrightarrow>
            chatHistory (step ?w1 (Settle j (Responded r'))) = Some (data r')"
    by auto
  then obtain j where j: "j < length (pending ?w1)"
    "\<forall>r'. 200 \<le> status r' \<and> status r' < 300 \<longrightarrow>
       chatHistory (step ?w1 (Settle j (Responded r'))) = Some (data r')"
    by blast
  from j(1) l have "j = 0" by simp
  with j(2) s' have "chatHistory (step ?w1 (Settle 0 (Responded new_history))) =
      Some (data new_history)"
    by blast
  then have n: "chatHistory (step ?w1 (Settle 0 (Responded new_history))) =
      Some (mockChatHistory @ [farewell])"
    by (simp add: new_history_def)
  from i p s s' c k l n show ?thesis by simp
qed

subsection \<open>C2: a 401 response ends the session\<close>

text \<open>
  Claim C2. Whatever call is settled by a response with status 401, the response
  interceptor removes the token from storage, sets the location to the login path and
  rejects the call with the error that carries the 401 response. At the level of the
  event loop this holds for every call in flight, whichever caller it belongs to (the
  history query, send, edit or delete); the caller's success callback does not run, so
  the cached history and the edit slot stay as they were.
\<close>

theorem unauthorized_invalidation:
  assumes "status r = 401"
  shows "httpClient_receive w (Responded r) =
           (w\<lparr>localStorage := (localStorage w)(lit ''token'' := None),
              location_href := lit ''/login''\<rparr>, Inl (AxiosError (Some r))) \<and>
         (k < length (pending w) \<longrightarrow>
            localStorage (step w (Settle k (Responded r))) (lit ''token'') = None \<and>
            location_href (step w (Settle k (Responded r))) = lit ''/login'' \<and>
            \<not> isAuthenticated (step w (Settle k (Responded r))) \<and>
            chatHistory (step w (Settle k (Responded r))) = chatHistory w \<and>
            editMessageId (step w (Settle k (Responded r))) = editMessageId w)"
proof -
  have a: "httpClient_receive w (Responded r) =
           (w\<lparr>localStorage := (localStorage w)(lit ''token'' := None),
              location_href := lit ''/login''\<rparr>, Inl (AxiosError (Some r)))" for w
    using assms by (simp add: receive_defs)
  have b: "localStorage (step w (Settle k (Responded r))) (lit ''token'') = None \<and>
           location_href (step w (Settle k (Responded r))) = lit ''/login'' \<and>
           chatHistory (step w (Settle k (Responded r))) = chatHistory w \<and>
           editMessageId (step w (Settle k (Responded r))) = editMessageId w"
    if "k < length (pending w)"
    using that by (cases "fst (pending w ! k)") (simp_all add: settle_call_def settled_def a client_defs)
  from a b show ?thesis by (simp add: isAuthenticated_def)
qed

theorem unauthorized_invalidation_witness:
  "status unauthorized = 401 \<and> 0 < length (pending sending_world) \<and>
   localStorage sending_world (lit ''token'') = Some (lit ''abc'') \<and>
   localStorage (step sending_world (Settle 0 (Responded unauthorized))) (lit ''token'') = None \<and>
   location_href (step sending_world (Settle 0 (Responded unauthorized))) = lit ''/login'' \<and>
   snd (httpClient_receive sending_world (Responded unauthorized)) =
     Inl (AxiosError (Some unauthorized))"
proof -
  have s: "status unauthorized = 401" by (simp add: unauthorized_def)
  have p: "0 < length (pending sending_world)" by (simp add: sending_world_eq)
  have l: "localStorage sending_world (lit ''token'') = Some (lit ''abc'')"
    by (simp add: sending_world_eq token_logged_in)
  from unauthorized_invalidation [OF s, of sending_world 0] s p l show ?thesis by simp
qed

subsection \<open>C3: blank content is not sent\<close>

text \<open>
  Claim C3. When the trimmed input is empty, \<open>handleSendMessage\<close> returns the state
  unchanged, and so does \<open>handleSaveEdit\<close> for a blank draft: no call is put in flight
  and nothing fails. By \<open>trim_empty_iff\<close> the trimmed string is empty exactly when
  every code unit of the string is white space.
\<close>

theorem empty_content_guard:
  assumes "trim s = []"
  shows "(message w = s \<longrightarrow>
            handleSendMessage w = w \<and> pending (handleSendMessage w) = pending w) \<and>
         (editedContent w = s \<longrightarrow>
            handleSaveEdit w messageId = w \<and> pending (handleSaveEdit w messageId) = pending w)"
  using assms by (simp add: handleSendMessage_def handleSaveEdit_def truthy_def)

theorem empty_content_guard_witness:
  "trim (lit ''   '') = [] \<and>
   message blank_world = lit ''   '' \<and> editedContent blank_world = lit ''   '' \<and>
   handleSendMessage blank_world = blank_world \<and>
   pending (handleSendMessage blank_world) = [] \<and>
   handleSaveEdit blank_world (lit ''1'') = blank_world \<and>
   pending (handleSaveEdit blank_world (lit ''1'')) = []"
proof -
  have m: "message blank_world = lit ''   ''" and e: "editedContent blank_world = lit ''   ''"
    and p: "pending blank_world = []"
    by (simp_all add: blank_world_def logged_in_def initial_def)
  from empty_content_guard [OF trim_blank, of blank_world "lit ''1''"] m e p trim_blank
  show ?thesis by simp
qed

subsection \<open>C4: one message at most is being edited\<close>

text \<open>
  Claim C4. The edit slot holds one identifier at most, so in a history whose
  identifiers are distinct one row at most shows the edit form, in every state.
  Clicking Edit on a message, whatever is being edited and whatever the draft is, leads
  in one step and without any call to the state that edits this message with its
  content as the draft; after any non-empty sequence of such clicks the message being
  edited is the last one clicked.
\<close>

theorem single_active_edit:
  "((\<forall>h. chatHistory w = Some h \<longrightarrow> distinct (map chat_id h)) \<longrightarrow>
      length (filter is_edit_form (ChatBody w)) \<le> 1) \<and>
   editMessageId (step w (ClickEdit b)) = Some (toString (chat_id b)) \<and>
   editedContent (step w (ClickEdit b)) = content b \<and>
   pending (step w (ClickEdit b)) = pending w \<and>
   (chats \<noteq> [] \<longrightarrow>
      editMessageId (run w (map ClickEdit chats)) = Some (toString (chat_id (last chats))) \<and>
      editedContent (run w (map ClickEdit chats)) = content (last chats))"
proof -
  have rows: "length (filter is_edit_form (map (ChatMessage_row w) h)) \<le> 1"
    if d: "distinct (map chat_id h)" for h
  proof -
    have "distinct (map (\<lambda>chat. Some (toString (chat_id chat))) h)"
      using d by (simp add: distinct_map inj_on_def) (blast dest: toString_inj inj_onD)
    then have "length (filter (\<lambda>chat. Some (toString (chat_id chat)) = editMessageId w) h) \<le> 1"
      by (rule filter_key_le_1)
    then show ?thesis by (simp add: edit_rows_filter)
  qed
  have one: "editMessageId (step w (ClickEdit b)) = Some (toString (chat_id b)) \<and>
             editedContent (step w (ClickEdit b)) = content b \<and>
             pending (step w (ClickEdit b)) = pending w" for w b
    by (simp add: Edit_onClick_def handleEditMessage_def)
  have seq: "editMessageId (run w (map ClickEdit chats)) = Some (toString (chat_id (last chats))) \<and>
             editedContent (run w (map ClickEdit chats)) = content (last chats)"
    if "chats \<noteq> []"
  proof -
    from that obtain cs c where "chats = cs @ [c]" by (metis append_butlast_last_id)
    then show ?thesis using one [of "run w (map ClickEdit cs)" c] by (simp add: run_snoc)
  qed
  have body: "length (filter is_edit_form (ChatBody w)) \<le> 1"
    if a: "\<forall>h. chatHistory w = Some h \<longrightarrow> distinct (map chat_id h)"
  proof (cases "chatHistory w")
    case None
    then show ?thesis by (simp add: ChatBody_def)
  next
    case (Some h)
    with a have "distinct (map chat_id h)" by blast
    then have "length (filter is_edit_form (map (ChatMessage_row w) h)) \<le> 1" by (rule rows)
    with Some show ?thesis by (simp add: ChatBody_def)
  qed
  from body one seq show ?thesis by blast
qed

theorem single_active_edit_witness:
  "chatHistory editing_world = Some (mockChatHistory @ [farewell]) \<and>
   distinct (map chat_id (mockChatHistory @ [farewell])) \<and>
   editMessageId editing_world = Some (lit ''1'') \<and>
   editedContent editing_world = lit ''Edited message'' \<and>
   length (filter is_edit_form (ChatBody editing_world)) \<le> 1 \<and>
   editMessageId (step editing_world (ClickEdit farewell)) = Some (toString 3) \<and>
   editedContent (step editing_world (ClickEdit farewell)) = lit ''Bye'' \<and>
   editMessageId (run editing_world (map ClickEdit [hd mockChatHistory, farewell])) =
     Some (toString 3)"
proof -
  have h: "chatHistory editing_world = Some (mockChatHistory @ [farewell])"
    by (simp add: editing_world_eq loaded_world_def)
  have d: "distinct (map chat_id (mockChatHistory @ [farewell]))"
    by (simp add: mockChatHistory_def farewell_def)
  from h d have a: "\<forall>h. chatHistory editing_world = Some h \<longrightarrow> distinct (map chat_id h)"
    by simp
  have n: "[hd mockChatHistory, farewell] \<noteq> []" by simp
  have f: "chat_id farewell = 3 \<and> content farewell = lit ''Bye''" by (simp add: farewell_def)
  have e: "editMessageId editing_world = Some (lit ''1'') \<and>
           editedContent editing_world = lit ''Edited message''"
    by (simp add: editing_world_eq)
  note c = single_active_edit [of editing_world farewell "[hd mockChatHistory, farewell]"]
  from c a have 1: "length (filter is_edit_form (ChatBody editing_world)) \<le> 1" by blast
  from c f have 2: "editMessageId (step editing_world (ClickEdit farewell)) = Some (toString 3) \<and>
      editedContent (step editing_world (ClickEdit farewell)) = lit ''Bye''"
    by simp
  from c n f have 3: "editMessageId (run editing_world (map ClickEdit [hd mockChatHistory, farewell])) =
      Some (toString 3)"
    by simp
  from h d e 1 2 3 show ?thesis by blast
qed

subsection \<open>C5: saving an edit\<close>

text \<open>
  Claim C5. With a draft whose trimmed text is not empty, saving puts one PUT to
  \<open>/messages/<id>\<close> in flight, with the draft as its content. When that call is
  settled successfully the edit slot is emptied and the history query is fetching (a
  new GET is issued unless one is already running); when it fails, the edit slot, the
  draft and the cached history are as before and no call is issued.
\<close>

theorem edit_save_then_idle:
  "(truthy (trim (editedContent w)) \<longrightarrow>
      handleSaveEdit w messageId =
        w\<lparr>pending := pending w @
             [(EditMessage, request_interceptor w
                 \<lparr>req_method = PUT, req_url = lit ''/messages/'' @ messageId,
                  body = Some (editedContent w), authorization = None\<rparr>)]\<rparr> \<and>
      step w (ClickSave chat) = handleSaveEdit w (toString (chat_id chat))) \<and>
   (k < length (pending w) \<and> fst (pending w ! k) = EditMessage \<longrightarrow>
      (settle out = Inr r \<longrightarrow>
         editMessageId (step w (Settle k out)) = None \<and>
         chatHistory (step w (Settle k out)) = chatHistory w \<and>
         isFetching (step w (Settle k out)) \<and>
         (\<not> isFetching w \<longrightarrow>
            pending (step w (Settle k out)) =
              take k (pending w) @ drop (Suc k) (pending w) @
              [(HistoryQuery, request_interceptor w
                  \<lparr>req_method = GET, req_url = lit ''/messages/history'', body = None,
                   authorization = None\<rparr>)])) \<and>
      (settle out = Inl err \<longrightarrow>
         editMessageId (step w (Settle k out)) = editMessageId w \<and>
         editedContent (step w (Settle k out)) = editedContent w \<and>
         chatHistory (step w (Settle k out)) = chatHistory w \<and>
         isFetching (step w (Settle k out)) = isFetching w \<and>
         pending (step w (Settle k out)) = take k (pending w) @ drop (Suc k) (pending w)))"
proof -
  have a: "truthy (trim (editedContent w)) \<Longrightarrow>
      handleSaveEdit w messageId =
        w\<lparr>pending := pending w @
             [(EditMessage, request_interceptor w
                 \<lparr>req_method = PUT, req_url = lit ''/messages/'' @ messageId,
                  body = Some (editedContent w), authorization = None\<rparr>)]\<rparr> \<and>
      step w (ClickSave chat) = handleSaveEdit w (toString (chat_id chat))"
    by (simp add: handleSaveEdit_def Save_onClick_def client_defs)
  have b: "editMessageId (step w (Settle k out)) = None \<and>
         chatHistory (step w (Settle k out)) = chatHistory w \<and>
         isFetching (step w (Settle k out)) \<and>
         (\<not> isFetching w \<longrightarrow>
            pending (step w (Settle k out)) =
              take k (pending w) @ drop (Suc k) (pending w) @
              [(HistoryQuery, request_interceptor w
                  \<lparr>req_method = GET, req_url = lit ''/messages/history'', body = None,
                   authorization = None\<rparr>)])"
    if "k < length (pending w)" "fst (pending w ! k) = EditMessage" "settle out = Inr r"
    using that
    by (simp add: settle_call_def settled_def httpClient_receive_def client_defs
        request_interceptor_def)
  have c: "editMessageId (step w (Settle k out)) = editMessageId w \<and>
         editedContent (step w (Settle k out)) = editedContent w \<and>
         chatHistory (step w (Settle k out)) = chatHistory w \<and>
         isFetching (step w (Settle k out)) = isFetching w \<and>
         pending (step w (Settle k out)) = take k (pending w) @ drop (Suc k) (pending w)"
    if "k < length (pending w)" "fst (pending w ! k) = EditMessage" "settle out = Inl err"
    using that
    by (simp add: settle_call_def settled_def httpClient_receive_def response_rejected_def
        client_defs split: option.splits)
  from a b c show ?thesis by blast
qed

theorem edit_save_then_idle_witness:
  "truthy (trim (editedContent editing_world)) \<and>
   editMessageId editing_world = Some (lit ''1'') \<and>
   step editing_world (ClickSave (hd mockChatHistory)) = saving_world \<and>
   pending saving_world =
     [(EditMessage, \<lparr>req_method = PUT, req_url = lit ''/messages/'' @ lit ''1'',
         body = Some (lit ''Edited message''),
         authorization = Some (lit ''Bearer '' @ lit ''abc'')\<rparr>)] \<and>
   settle (Responded ok_history) = Inr ok_history \<and>
   editMessageId (step saving_world (Settle 0 (Responded ok_history))) = None \<and>
   isFetching (step saving_world (Settle 0 (Responded ok_history))) \<and>
   settle NoResponse = Inl (AxiosError None) \<and>
   editMessageId (step saving_world (Settle 0 NoResponse)) = Some (lit ''1'') \<and>
   editedContent (step saving_world (Settle 0 NoResponse)) = lit ''Edited message''"
proof -
  have t: "truthy (trim (editedContent editing_world))"
    by (simp add: editing_world_eq trim_edited truthy_def) (simp add: lit_def)
  have k: "0 < length (pending saving_world) \<and> fst (pending saving_world ! 0) = EditMessage"
    by (simp add: saving_world_eq)
  have s: "settle (Responded ok_history) = Inr ok_history"
    by (simp add: settle_def ok_history_def)
  have n: "settle NoResponse = Inl (AxiosError None)" by (simp add: settle_def)
  have e: "editMessageId saving_world = Some (lit ''1'') \<and>
           editedContent saving_world = lit ''Edited message'' \<and>
           editMessageId editing_world = Some (lit ''1'')"
    by (simp add: saving_world_eq editing_world_eq)
  have p: "pending saving_world =
     [(EditMessage, \<lparr>req_method = PUT, req_url = lit ''/messages/'' @ lit ''1'',
         body = Some (lit ''Edited message''),
         authorization = Some (lit ''Bearer '' @ lit ''abc'')\<rparr>)]"
    by (simp add: saving_world_eq)
  from edit_save_then_idle [of saving_world _ _ 0 "Responded ok_history" ok_history] k s
  have 1: "editMessageId (step saving_world (Settle 0 (Responded ok_history))) = None \<and>
           isFetching (step saving_world (Settle 0 (Responded ok_history)))"
    by blast
  from edit_save_then_idle [of saving_world _ _ 0 NoResponse _ "AxiosError None"] k n
  have 2: "editMessageId (step saving_world (Settle 0 NoResponse)) = editMessageId saving_world \<and>
           editedContent (step saving_world (Settle 0 NoResponse)) = editedContent saving_world"
    by blast
  from t e p s n 1 2 show ?thesis by (simp add: saving_world_def)
qed

subsection \<open>C6: the body of a sent message\<close>

text \<open>
  Claim C6 says that the content posted is the trimmed input. The handler trims only to
  decide whether to send: \<open>sendMessageMutation.mutate(message)\<close> passes the input as
  typed. For the input \<open>" hi "\<close> the posted content keeps both blanks.
\<close>

theorem send_body_trimmed_counterexample:
  "truthy (trim (message typed_world)) \<and>
   body (snd (last (pending (handleSendMessage typed_world)))) \<noteq>
     Some (trim (message typed_world))"
proof -
  note t = typed_world_truthy
  have n: "lit '' hi '' \<noteq> lit ''hi''" by (simp add: lit_def)
  have "body (snd (last (pending sending_world))) = Some (lit '' hi '')"
    by (simp add: sending_world_eq)
  moreover have "trim (message typed_world) = lit ''hi''"
    by (simp add: typed_world_def trim_hi)
  ultimately show ?thesis using t n by (simp add: sending_world_def)
qed

text \<open>
  Claim C6, amended. For every send whose trimmed input is not empty, one POST to
  \<open>/messages\<close> is put in flight and its content field equals the input string exactly
  as typed, surrounding white space included.
\<close>

theorem send_body_is_raw_input:
  assumes "truthy (trim (message w))"
  shows "handleSendMessage w =
           w\<lparr>pending := pending w @
                [(SendMessage, request_interceptor w
                    \<lparr>req_method = POST, req_url = lit ''/messages'', body = Some (message w),
                     authorization = None\<rparr>)],
             message := []\<rparr> \<and>
         body (snd (last (pending (handleSendMessage w)))) = Some (message w)"
proof -
  have b: "body (request_interceptor w config) = body config" for config
    by (simp add: request_interceptor_def split: option.splits)
  show ?thesis using assms by (simp add: handleSendMessage_def client_defs b)
qed

theorem send_body_is_raw_input_witness:
  "truthy (trim (message typed_world)) \<and>
   body (snd (last (pending (handleSendMessage typed_world)))) = Some (lit '' hi '')"
proof -
  note t = typed_world_truthy
  have m: "message typed_world = lit '' hi ''" by (simp add: typed_world_def)
  have "body (snd (last (pending (handleSendMessage typed_world)))) = Some (message typed_world)"
    using send_body_is_raw_input [OF t] by (rule conjunct2)
  with t m show ?thesis by simp
qed

subsection \<open>C7: the input is cleared at submit time\<close>

text \<open>
  Claim C7. When the trimmed input is not empty, the state right after the click has an
  empty input while the POST it issued is still in flight, the cached history being
  untouched; and no settling of any call, successful or failed, writes the input
  afterwards.
\<close>

theorem input_cleared_on_submit:
  assumes "truthy (trim (message w))"
  shows "message (step w ClickSend) = [] \<and>
         pending (step w ClickSend) =
           pending w @
           [(SendMessage, request_interceptor w
               \<lparr>req_method = POST, req_url = lit ''/messages'', body = Some (message w),
                authorization = None\<rparr>)] \<and>
         chatHistory (step w ClickSend) = chatHistory w \<and>
         (\<forall>w' k out. message (step w' (Settle k out)) = message w')"
proof -
  have m: "message (fst (httpClient_receive w' out)) = message w'" for w' out
    by (simp add: receive_defs split: outcome.splits option.splits)
  have s: "message (settled w' orig res) = message w'" for w' orig res
    by (cases orig; cases res) (simp_all add: settled_def client_defs)
  have "message (step w' (Settle k out)) = message w'" for w' k out
  proof (cases "k < length (pending w')")
    case True
    obtain w'' res where r: "httpClient_receive (w'\<lparr>pending := take k (pending w') @ drop (Suc k) (pending w')\<rparr>) out = (w'', res)"
      by (cases "httpClient_receive (w'\<lparr>pending := take k (pending w') @ drop (Suc k) (pending w')\<rparr>) out")
    from m [of "w'\<lparr>pending := take k (pending w') @ drop (Suc k) (pending w')\<rparr>" out] r
    have "message w'' = message w'" by simp
    with True r s show ?thesis by (simp add: settle_call_def)
  next
    case False
    then show ?thesis by (simp add: settle_call_def)
  qed
  then show ?thesis using assms by (simp add: handleSendMessage_def client_defs)
qed

theorem input_cleared_on_submit_witness:
  "truthy (trim (message typed_world)) \<and> message typed_world = lit '' hi '' \<and>
   message (step typed_world ClickSend) = [] \<and>
   length (pending (step typed_world ClickSend)) = 1 \<and>
   message (step (step typed_world ClickSend) (Settle 0 NoResponse)) = [] \<and>
   message (step (step typed_world ClickSend) (Settle 0 (Responded created))) = []"
proof -
  note t = typed_world_truthy
  have m: "message typed_world = lit '' hi ''" by (simp add: typed_world_def)
  have p: "pending typed_world = []" by (simp add: typed_world_def logged_in_def initial_def)
  note c = input_cleared_on_submit [OF t]
  from c have 1: "message (step typed_world ClickSend) = []" by (rule conjunct1)
  from c p have 2: "length (pending (step typed_world ClickSend)) = 1" by simp
  from c have 3: "message (step (step typed_world ClickSend) (Settle k out)) =
      message (step typed_world ClickSend)" for k out
    by blast
  from t m 1 2 3 show ?thesis by simp
qed

subsection \<open>C8: the route guard\<close>

text \<open>
  Claim C8. \<open>ProtectedRoute\<close> renders the protected view exactly when
  \<open>isAuthenticated\<close> holds, and otherwise navigates to \<open>/login\<close> (replacing the
  history entry). \<open>isAuthenticated\<close> is the truth value of the stored token: a token is
  stored and is not the empty string, which is also when the request interceptor
  attaches it. The result is a function of the stored token alone; evaluating the
  guard returns an element and issues no call.
\<close>

theorem route_guard_by_token:
  "(ProtectedRoute w = Outlet \<longleftrightarrow> isAuthenticated w) \<and>
   (\<not> isAuthenticated w \<longrightarrow> ProtectedRoute w = Navigate (lit ''/login'') True) \<and>
   (isAuthenticated w \<longleftrightarrow>
      (\<exists>token. localStorage w (lit ''token'') = Some token \<and> token \<noteq> [])) \<and>
   (localStorage w' (lit ''token'') = localStorage w (lit ''token'') \<longrightarrow>
      ProtectedRoute w' = ProtectedRoute w)"
  by (auto simp: ProtectedRoute_def isAuthenticated_def truthy_def split: option.splits)

theorem route_guard_by_token_witness:
  "isAuthenticated logged_in \<and> ProtectedRoute logged_in = Outlet \<and>
   ProtectedRoute sending_world = Outlet \<and>
   \<not> isAuthenticated (initial Map.empty 3) \<and>
   ProtectedRoute (initial Map.empty 3) = Navigate (lit ''/login'') True"
proof -
  have a: "\<exists>token. localStorage logged_in (lit ''token'') = Some token \<and> token \<noteq> []"
    by (simp add: token_logged_in) (simp add: lit_def)
  have b: "\<not> (\<exists>token. localStorage (initial Map.empty 3) (lit ''token'') = Some token \<and> token \<noteq> [])"
    by (simp add: initial_def)
  have c: "localStorage sending_world (lit ''token'') = localStorage logged_in (lit ''token'')"
    by (simp add: sending_world_eq)
  from route_guard_by_token [of logged_in sending_world] a c
  have 1: "isAuthenticated logged_in \<and> ProtectedRoute logged_in = Outlet \<and>
           ProtectedRoute sending_world = Outlet"
    by metis
  from route_guard_by_token [of "initial Map.empty 3"] b
  have 2: "\<not> isAuthenticated (initial Map.empty 3) \<and>
           ProtectedRoute (initial Map.empty 3) = Navigate (lit ''/login'') True"
    by metis
  from 1 2 show ?thesis by blast
qed

subsection \<open>C9: a call without a response leaves the session alone\<close>

text \<open>
  Claim C9. A call that fails with no response is rejected with an error that has no
  response attached; storage (the token with it) and the location are unchanged,
  whichever call in flight it was.
\<close>

theorem transport_failure_keeps_session:
  "httpClient_receive w NoResponse = (w, Inl (AxiosError None)) \<and>
   localStorage (step w (Settle k NoResponse)) = localStorage w \<and>
   location_href (step w (Settle k NoResponse)) = location_href w \<and>
   isAuthenticated (step w (Settle k NoResponse)) = isAuthenticated w"
proof -
  have a: "httpClient_receive w NoResponse = (w, Inl (AxiosError None))" for w
    by (simp add: receive_defs)
  have b: "localStorage (step w (Settle k NoResponse)) = localStorage w \<and>
           location_href (step w (Settle k NoResponse)) = location_href w"
    by (cases "fst (pending w ! k)") (simp_all add: settle_call_def settled_def a client_defs)
  from a b show ?thesis by (simp add: isAuthenticated_def)
qed

theorem transport_failure_keeps_session_witness:
  "localStorage (step sending_world (Settle 0 NoResponse)) (lit ''token'') = Some (lit ''abc'') \<and>
   location_href (step sending_world (Settle 0 NoResponse)) = lit ''/'' \<and>
   snd (httpClient_receive sending_world NoResponse) = Inl (AxiosError None)"
proof -
  have l: "localStorage sending_world (lit ''token'') = Some (lit ''abc'')"
    by (simp add: sending_world_eq token_logged_in)
  have h: "location_href sending_world = lit ''/''"
    by (simp add: sending_world_eq logged_in_def initial_def)
  from transport_failure_keeps_session [of sending_world 0] l h show ?thesis by simp
qed

subsection \<open>C10: beginning an edit is local\<close>

text \<open>
  Claim C10. \<open>handleEditMessage\<close> puts no call in flight and leaves the cached
  history, the query's state, the new-message input, storage and the location as they
  were; it sets the edit slot to the given identifier and the draft to the given
  content. The Edit button calls it with the message's identifier and its current
  content.
\<close>

theorem begin_edit_is_local:
  "pending (handleEditMessage w messageId c) = pending w \<and>
   chatHistory (handleEditMessage w messageId c) = chatHistory w \<and>
   isFetching (handleEditMessage w messageId c) = isFetching w \<and>
   message (handleEditMessage w messageId c) = message w \<and>
   localStorage (handleEditMessage w messageId c) = localStorage w \<and>
   location_href (handleEditMessage w messageId c) = location_href w \<and>
   editMessageId (handleEditMessage w messageId c) = Some messageId \<and>
   editedContent (handleEditMessage w messageId c) = c \<and>
   step w (ClickEdit chat) = handleEditMessage w (toString (chat_id chat)) (content chat) \<and>
   handleEditMessage w messageId c = w\<lparr>editMessageId := Some messageId, editedContent := c\<rparr>"
  by (simp add: handleEditMessage_def Edit_onClick_def)

theorem begin_edit_is_local_witness:
  "editMessageId (step sending_world (ClickEdit (hd mockChatHistory))) = Some (lit ''1'') \<and>
   editedContent (step sending_world (ClickEdit (hd mockChatHistory))) = lit ''Hello!'' \<and>
   pending (step sending_world (ClickEdit (hd mockChatHistory))) = pending sending_world \<and>
   message (step sending_world (ClickEdit (hd mockChatHistory))) = []"
proof -
  have i: "toString (chat_id (hd mockChatHistory)) = lit ''1''"
    by (simp add: mockChatHistory_def toString_1)
  have c: "content (hd mockChatHistory) = lit ''Hello!''"
    by (simp add: mockChatHistory_def)
  have m: "message sending_world = []" by (simp add: sending_world_eq)
  from begin_edit_is_local [of sending_world "lit ''1''" "lit ''Hello!''" "hd mockChatHistory"]
    i c m
  show ?thesis by simp
qed

end
